theory Spec2Isabelle
  imports Main
begin

section \<open>Python values, exceptions and the interactive world\<close>

text \<open>
  \<^verbatim>\<open>raiden/ui/cli.py\<close> is Python 2. A call either returns, leaves through
  \<^verbatim>\<open>sys.exit(n)\<close>, or raises. The exceptions that the two commands \<^verbatim>\<open>app\<close> and
  \<^verbatim>\<open>run\<close> can meet are listed by name; \<open>MalformedEndpoint\<close> is whatever
  \<^verbatim>\<open>split_endpoint\<close> raises on a string it rejects.
\<close>

datatype exc =
    ValueError
  | RuntimeError
  | IndexError
  | UnboundLocalError
  | ZeroDivisionError
  | MalformedEndpoint
  | DecodeError
  | Abort
  | EOFError

datatype 'a outcome = Returned 'a | SysExit int | Raised exc

text \<open>The lines that \<^verbatim>\<open>app\<close> prints, one constructor for each \<^verbatim>\<open>print\<close> of the source.\<close>

datatype msg =
    AccountsFound
  | Blank
  | AddressListing "string list"
  | IndexOutOfBounds int
  | IncorrectPasswordInFile "string option"
  | ExhaustedUnlockAttempts "string option"
  | IncorrectPassphrase nat
  | ErrorMessage string

text \<open>
  What the process reads and writes: the integers the user answers to \<^verbatim>\<open>click.prompt\<close>,
  the passphrases typed at the passphrase prompt, the lines printed so far, and the
  passwords handed to the keystore so far (one entry for each unlock attempt).
\<close>

record world =
  prompt_answers :: "int list"
  passphrases :: "string list"
  printed :: "msg list"
  unlock_attempts :: "string list"

definition say :: "msg \<Rightarrow> world \<Rightarrow> world" where
  "say m w = w\<lparr>printed := printed w @ [m]\<rparr>"

section \<open>The account manager\<close>

text \<open>
  \<^verbatim>\<open>accmgr.accounts\<close> (its keys, in listing order), \<^verbatim>\<open>accmgr.address_in_keystore\<close>,
  and the keystore's own check of a password for an address: \<open>None\<close> is the
  \<^verbatim>\<open>ValueError\<close> of an incorrect password, \<open>Some k\<close> the private key.
\<close>

record accmgr =
  accounts :: "string list"
  address_in_keystore :: "string option \<Rightarrow> bool"
  privkey :: "string option \<Rightarrow> string \<Rightarrow> string option"

text \<open>
  Modelled from the spec: \<^verbatim>\<open>AccountManager.get_privkey\<close> of \<^verbatim>\<open>raiden.accounts\<close>, which is
  not among the sources. With a password it makes one attempt with that password; without
  one it asks for a passphrase at the prompt and makes one attempt with what was typed
  (the end of the input is \<^verbatim>\<open>EOFError\<close>). An incorrect password is \<^verbatim>\<open>ValueError\<close>.
\<close>

definition attempt :: "accmgr \<Rightarrow> string option \<Rightarrow> string \<Rightarrow> world \<Rightarrow> string outcome \<times> world" where
  "attempt am address p w =
     ((case privkey am address p of None \<Rightarrow> Raised ValueError | Some k \<Rightarrow> Returned k),
      w\<lparr>unlock_attempts := unlock_attempts w @ [p]\<rparr>)"

definition get_privkey ::
  "accmgr \<Rightarrow> string option \<Rightarrow> string option \<Rightarrow> world \<Rightarrow> string outcome \<times> world" where
  "get_privkey am address password w =
     (case password of
        Some p \<Rightarrow> attempt am address p w
      | None \<Rightarrow>
          (case passphrases w of
             [] \<Rightarrow> (Raised EOFError, w)
           | p # ps \<Rightarrow> attempt am address p (w\<lparr>passphrases := ps\<rparr>)))"

section \<open>Reading the password file\<close>

text \<open>
  \<^verbatim>\<open>str.splitlines()\<close> of Python 2 on a byte string: a line ends at \<^verbatim>\<open>\n\<close>, at
  \<^verbatim>\<open>\r\<close> or at \<^verbatim>\<open>\r\n\<close>, the line ends are dropped, and a final line end opens no
  further line.
\<close>

abbreviation LF :: char where "LF \<equiv> CHR 0x0A"
abbreviation CR :: char where "CR \<equiv> CHR 0x0D"

definition drop_lf :: "string \<Rightarrow> string" where
  "drop_lf cs = (case cs of [] \<Rightarrow> [] | d # ds \<Rightarrow> if d = LF then ds else cs)"

function splitlines :: "string \<Rightarrow> string list" where
  "splitlines [] = []"
| "splitlines (c # cs) =
     (if c = LF then [] # splitlines cs
      else if c = CR then [] # splitlines (drop_lf cs)
      else (case splitlines cs of [] \<Rightarrow> [[c]] | l # ls \<Rightarrow> (c # l) # ls))"
  by pat_completeness auto
termination
  by (relation "measure length") (auto simp: drop_lf_def split: list.splits)

text \<open>
  Lines 214 to 216: \<^verbatim>\<open>password = None\<close>, and with a password file
  \<^verbatim>\<open>password = password_file.read().splitlines()[0]\<close>. The file is given by its
  content; an empty file has no first line and the index raises.
\<close>

definition read_password :: "string option \<Rightarrow> string option outcome" where
  "read_password password_file =
     (case password_file of
        None \<Rightarrow> Returned None
      | Some content \<Rightarrow>
          (case splitlines content of
             [] \<Rightarrow> Raised IndexError
           | l # _ \<Rightarrow> Returned (Some l)))"

text \<open>Python's truth value of \<^verbatim>\<open>password\<close>: \<^verbatim>\<open>None\<close> and the empty string are false.\<close>

definition truthy :: "string option \<Rightarrow> bool" where
  "truthy password = (case password of None \<Rightarrow> False | Some p \<Rightarrow> p \<noteq> [])"

section \<open>Unlocking the private key\<close>

text \<open>
  Lines 225 to 243, the \<^verbatim>\<open>while True\<close> loop with \<^verbatim>\<open>unlock_tries\<close>: the counter starts
  at 3 and is decremented only when it is not 0, so it is a natural number.
\<close>

function unlock_loop ::
  "accmgr \<Rightarrow> string option \<Rightarrow> nat \<Rightarrow> world \<Rightarrow> string outcome \<times> world" where
  "unlock_loop am address unlock_tries w =
     (case get_privkey am address None w of
        (Returned k, w') \<Rightarrow> (Returned k, w')
      | (Raised e, w') \<Rightarrow>
          (if e = ValueError then
             (if unlock_tries = 0 then (SysExit 1, say (ExhaustedUnlockAttempts address) w')
              else unlock_loop am address (unlock_tries - 1)
                     (say (IncorrectPassphrase unlock_tries) w'))
           else (Raised e, w'))
      | (SysExit n, w') \<Rightarrow> (SysExit n, w'))"
  by pat_completeness auto
termination
  by (relation "measure (\<lambda>(am, address, unlock_tries, w). unlock_tries)") auto

text \<open>Lines 214 to 243.\<close>

definition unlock ::
  "accmgr \<Rightarrow> string option \<Rightarrow> string option \<Rightarrow> world \<Rightarrow> string outcome \<times> world" where
  "unlock am address password_file w =
     (case read_password password_file of
        Raised e \<Rightarrow> (Raised e, w)
      | SysExit n \<Rightarrow> (SysExit n, w)
      | Returned password \<Rightarrow>
          (if truthy password then
             (case get_privkey am address password w of
                (Raised e, w') \<Rightarrow>
                  (if e = ValueError
                   then (SysExit 1, say (IncorrectPasswordInFile address) w')
                   else (Raised e, w'))
              | r \<Rightarrow> r)
           else unlock_loop am address 3 w))"

section \<open>Selecting the address\<close>

text \<open>Sequencing: what follows a call runs only when the call returned.\<close>

definition and_then ::
  "'a outcome \<times> world \<Rightarrow> ('a \<Rightarrow> world \<Rightarrow> 'b outcome \<times> world) \<Rightarrow> 'b outcome \<times> world" where
  "and_then m f =
     (case m of
        (Returned x, w) \<Rightarrow> f x w
      | (SysExit n, w) \<Rightarrow> (SysExit n, w)
      | (Raised e, w) \<Rightarrow> (Raised e, w))"

text \<open>
  Lines 204 to 210, the \<^verbatim>\<open>while should_prompt\<close> loop over \<open>n\<close> listed addresses.
  \<^verbatim>\<open>click.prompt\<close> aborts at the end of the input.
\<close>

function select_index :: "nat \<Rightarrow> world \<Rightarrow> int outcome \<times> world" where
  "select_index n w =
     (case prompt_answers w of
        [] \<Rightarrow> (Raised Abort, w)
      | idx # rest \<Rightarrow>
          (if 0 \<le> idx \<and> idx < int n then (Returned idx, w\<lparr>prompt_answers := rest\<rparr>)
           else select_index n (say (IndexOutOfBounds idx) (w\<lparr>prompt_answers := rest\<rparr>))))"
  by pat_completeness auto
termination
  by (relation "measure (\<lambda>(n, w). length (prompt_answers w))") (auto simp: say_def)

text \<open>Lines 190 to 212.\<close>

definition select_address ::
  "accmgr \<Rightarrow> string option \<Rightarrow> world \<Rightarrow> string option outcome \<times> world" where
  "select_address am a w =
     (if \<not> address_in_keystore am a then
        (let addresses = accounts am;
             w1 = say Blank (say (AddressListing addresses) (say Blank (say AccountsFound w)))
         in and_then (select_index (length addresses) w1)
              (\<lambda>idx w2. (Returned (Some (addresses ! nat idx)), w2)))
      else (Returned a, w))"

section \<open>The RPC endpoint\<close>

text \<open>\<^verbatim>\<open>s.startswith(p)\<close> and the slice \<^verbatim>\<open>s[len(p):]\<close>.\<close>

definition startswith :: "string \<Rightarrow> string \<Rightarrow> bool" where
  "startswith s p = (take (length p) s = p)"

definition strip_prefix :: "string \<Rightarrow> string \<Rightarrow> string" where
  "strip_prefix p s = drop (length p) s"

text \<open>
  Lines 248 to 260. The helper \<^verbatim>\<open>split_endpoint\<close> of \<^verbatim>\<open>raiden.utils\<close> is a parameter:
  \<open>None\<close> is its failure. The local \<^verbatim>\<open>rpc_port\<close> is assigned on some paths only, so
  it is an option: \<open>None\<close> is the unbound local.
\<close>

definition rpc_endpoint ::
  "(string \<Rightarrow> (string \<times> int) option) \<Rightarrow> string \<Rightarrow> (string \<times> int option) outcome" where
  "rpc_endpoint split eth_rpc =
     (let (endpoint, rpc_port) =
            (if startswith eth_rpc ''http://'' then (strip_prefix ''http://'' eth_rpc, Some 80)
             else if startswith eth_rpc ''https://''
               then (strip_prefix ''https://'' eth_rpc, Some 443)
             else (eth_rpc, None))
      in if CHR '':'' \<notin> set endpoint then Returned (endpoint, rpc_port)
         else (case split endpoint of
                 None \<Rightarrow> Raised MalformedEndpoint
               | Some (rpc_host, port) \<Rightarrow> Returned (rpc_host, Some port)))"

text \<open>
  Modelled from the spec: \<^verbatim>\<open>split_endpoint\<close> of \<^verbatim>\<open>raiden.utils\<close>, which is not among
  the sources, as the spec's \<^verbatim>\<open>parse_endpoint\<close>: it splits at the last \<^verbatim>\<open>:\<close> and fails
  when there is none or when the port segment is not a non-negative decimal integer.
\<close>

definition is_digit :: "char \<Rightarrow> bool" where
  "is_digit c = ((48::nat) \<le> of_char c \<and> (of_char c :: nat) \<le> 57)"

fun decimal :: "nat \<Rightarrow> string \<Rightarrow> nat option" where
  "decimal acc [] = Some acc"
| "decimal acc (c # cs) =
     (if is_digit c then decimal (10 * acc + (of_char c - 48)) cs else None)"

definition parse_endpoint :: "string \<Rightarrow> (string \<times> int) option" where
  "parse_endpoint s =
     (if CHR '':'' \<notin> set s then None
      else
        (let port = rev (takeWhile (\<lambda>c. c \<noteq> CHR '':'') (rev s));
             host = take (length s - Suc (length port)) s
         in if port = [] then None
            else (case decimal 0 port of None \<Rightarrow> None | Some n \<Rightarrow> Some (host, int n))))"

section \<open>The command \<^verbatim>\<open>app\<close>\<close>

text \<open>
  The collaborators that \<^verbatim>\<open>app\<close> imports: \<^verbatim>\<open>split_endpoint\<close>, \<^verbatim>\<open>address_decoder\<close>
  (\<open>None\<close> when it rejects the string), the constant of \<^verbatim>\<open>raiden.settings\<close>, and the
  constructor of \<^verbatim>\<open>BlockChainService\<close> (\<open>Some m\<close> is its \<^verbatim>\<open>ValueError\<close> with message
  \<open>m\<close>, \<open>None\<close> a constructed service).
\<close>

record externals =
  split_endpoint :: "string \<Rightarrow> (string \<times> int) option"
  address_decoder :: "string \<Rightarrow> string option"
  DEFAULT_NAT_KEEPALIVE_RETRIES :: int
  BlockChainService :: "string \<Rightarrow> string \<Rightarrow> string \<Rightarrow> int \<Rightarrow> string option"

text \<open>The command-line options, under the names of \<^verbatim>\<open>OPTIONS\<close>.\<close>

record args =
  address :: "string option"
  eth_rpc_endpoint :: string
  registry_contract_address :: string
  discovery_contract_address :: string
  listen_address :: string
  rpccorsdomain :: string
  max_unresponsive_time :: int
  send_ping_time :: int
  console :: bool
  rpc :: bool
  api_address :: string
  password_file :: "string option"

text \<open>What \<^verbatim>\<open>app\<close> hands to \<^verbatim>\<open>App\<close>: the configuration and the chain service's arguments.\<close>

record app_value =
  cfg_host :: string
  cfg_port :: int
  cfg_console :: bool
  cfg_rpc :: bool
  cfg_api_host :: string
  cfg_api_port :: int
  cfg_nat_keepalive_retries :: int
  cfg_nat_keepalive_timeout :: int
  cfg_privatekey :: string
  chain_registry :: string
  chain_discovery :: string
  chain_host :: string
  chain_port :: int

text \<open>
  Lines 170 to 294. The division of line 182 is Python 2's integer division. Line 271
  reads \<^verbatim>\<open>rpc_port\<close>: reading the unbound local raises \<^verbatim>\<open>UnboundLocalError\<close>, which
  the \<^verbatim>\<open>except ValueError\<close> of line 273 does not catch.
\<close>

definition app :: "externals \<Rightarrow> accmgr \<Rightarrow> args \<Rightarrow> world \<Rightarrow> app_value outcome \<times> world" where
  "app ex am kw w =
     (case split_endpoint ex (listen_address kw) of
        None \<Rightarrow> (Raised MalformedEndpoint, w)
      | Some (listen_host, listen_port) \<Rightarrow>
     (case split_endpoint ex (api_address kw) of
        None \<Rightarrow> (Raised MalformedEndpoint, w)
      | Some (api_host, api_port) \<Rightarrow>
     (if DEFAULT_NAT_KEEPALIVE_RETRIES ex = 0 then (Raised ZeroDivisionError, w)
      else if accounts am = [] then (Raised RuntimeError, w)
      else
        and_then (select_address am (address kw) w) (\<lambda>a w1.
        and_then (unlock am a (password_file kw) w1) (\<lambda>privatekey_bin w2.
          (case rpc_endpoint (split_endpoint ex) (eth_rpc_endpoint kw) of
             Raised e \<Rightarrow> (Raised e, w2)
           | SysExit n \<Rightarrow> (SysExit n, w2)
           | Returned (rpc_host, rpc_port) \<Rightarrow>
          (case address_decoder ex (registry_contract_address kw) of
             None \<Rightarrow> (Raised DecodeError, w2)
           | Some registry \<Rightarrow>
          (case address_decoder ex (discovery_contract_address kw) of
             None \<Rightarrow> (Raised DecodeError, w2)
           | Some discovery \<Rightarrow>
          (case rpc_port of
             None \<Rightarrow> (Raised UnboundLocalError, w2)
           | Some port \<Rightarrow>
          (case BlockChainService ex privatekey_bin registry rpc_host port of
             Some m \<Rightarrow> (SysExit 1, say (ErrorMessage m) w2)
           | None \<Rightarrow>
               (Returned
                  \<lparr>cfg_host = listen_host, cfg_port = listen_port,
                   cfg_console = console kw, cfg_rpc = rpc kw,
                   cfg_api_host = api_host, cfg_api_port = api_port,
                   cfg_nat_keepalive_retries =
                     max_unresponsive_time kw div DEFAULT_NAT_KEEPALIVE_RETRIES ex,
                   cfg_nat_keepalive_timeout = send_ping_time kw,
                   cfg_privatekey = privatekey_bin,
                   chain_registry = registry, chain_discovery = discovery,
                   chain_host = rpc_host, chain_port = port\<rparr>, w2)))))))))))"

section \<open>The command \<^verbatim>\<open>run\<close>\<close>

subsection \<open>The list of CORS domains\<close>

text \<open>\<^verbatim>\<open>s.split(sep)\<close> for a separator of one character: the empty string gives one empty piece.\<close>

fun split_on :: "char \<Rightarrow> string \<Rightarrow> string list" where
  "split_on sep [] = [[]]"
| "split_on sep (c # cs) =
     (if c = sep then [] # split_on sep cs
      else (case split_on sep cs of [] \<Rightarrow> [[c]] | l # ls \<Rightarrow> (c # l) # ls))"

text \<open>
  \<^verbatim>\<open>str(domain)\<close>: strings are modelled as byte strings, on which the conversion
  returns its argument.
\<close>

definition str :: "string \<Rightarrow> string" where
  "str domain = domain"

text \<open>Lines 322 to 328.\<close>

definition domain_list :: "string \<Rightarrow> string list" where
  "domain_list cors =
     (if cors \<noteq> [] then
        (if CHR '','' \<in> set cors then map str (split_on (CHR '','') cors)
         else [str cors])
      else [])"

subsection \<open>The orchestrator as a scheduled machine\<close>

text \<open>
  Lines 313 to 365 run on gevent's cooperative scheduler together with the spawned
  registration greenlet and the signal handlers. The machine below has one program
  counter for each statement of \<^verbatim>\<open>run\<close> from the spawn onwards; \<open>In\<dots>\<close> is a call that
  has begun and not returned. The greenlet \<^verbatim>\<open>registry_event\<close> is not spawned, running
  or finished. Event objects live in a store of flags, \<^verbatim>\<open>event\<close> is the local variable
  (an index into the store once line 359 has run), and \<open>handlers\<close> maps each signal
  with a handler to the event that the handler sets.
\<close>

datatype signal = SIGQUIT | SIGTERM | SIGINT

datatype task = NotSpawned | Running | Finished

datatype pc =
    AtSpawn | AtRegister | InRegister | AtDomains | AtRpc | AtConsole | AtJoin
  | AtEvent | AtSigQuit | AtSigTerm | AtSigInt | AtWait | InWait | AtStop | InStop
  | Done | Aborted

datatype obs =
    Spawned | RegistryBegin | RegistryEnd | TaskEnd | ApiSpawned | ConsoleStarted
  | Joined | WaitBegin | EventSet | StopCalled

record run_state =
  pc :: pc
  registry_event :: task
  events :: "bool list"
  event :: "nat option"
  handlers :: "(signal \<times> nat) list"
  log :: "obs list"

definition emit :: "obs \<Rightarrow> run_state \<Rightarrow> run_state" where
  "emit e s = s\<lparr>log := log s @ [e]\<rparr>"

text \<open>\<^verbatim>\<open>gevent.signal(sg, event.set)\<close>: the newest handler of a signal is the one in force.\<close>

definition install :: "signal \<Rightarrow> run_state \<Rightarrow> run_state" where
  "install sg s =
     (case event s of
        None \<Rightarrow> s\<lparr>pc := Aborted\<rparr>
      | Some i \<Rightarrow> s\<lparr>handlers := (sg, i) # handlers s\<rparr>)"

definition is_set :: "run_state \<Rightarrow> bool" where
  "is_set s = (case event s of None \<Rightarrow> False | Some i \<Rightarrow> i < length (events s) \<and> events s ! i)"

text \<open>
  One turn of the orchestrator: it runs its next statement, or stays where it is when
  it is blocked in \<^verbatim>\<open>registry_event.join()\<close> or \<^verbatim>\<open>event.wait()\<close>. The flags are
  \<^verbatim>\<open>ctx.params['rpc']\<close> and \<^verbatim>\<open>ctx.params['console']\<close>.
\<close>

definition orch :: "bool \<Rightarrow> bool \<Rightarrow> run_state \<Rightarrow> run_state" where
  "orch rpc_flag console_flag s =
     (case pc s of
        AtSpawn \<Rightarrow> emit Spawned (s\<lparr>pc := AtRegister, registry_event := Running\<rparr>)
      | AtRegister \<Rightarrow> emit RegistryBegin (s\<lparr>pc := InRegister\<rparr>)
      | InRegister \<Rightarrow> emit RegistryEnd (s\<lparr>pc := AtDomains\<rparr>)
      | AtDomains \<Rightarrow> s\<lparr>pc := AtRpc\<rparr>
      | AtRpc \<Rightarrow> (if rpc_flag then emit ApiSpawned (s\<lparr>pc := AtConsole\<rparr>) else s\<lparr>pc := AtConsole\<rparr>)
      | AtConsole \<Rightarrow>
          (if console_flag then emit ConsoleStarted (s\<lparr>pc := AtJoin\<rparr>) else s\<lparr>pc := AtJoin\<rparr>)
      | AtJoin \<Rightarrow> (if registry_event s = Finished then emit Joined (s\<lparr>pc := AtEvent\<rparr>) else s)
      | AtEvent \<Rightarrow>
          s\<lparr>pc := AtSigQuit, event := Some (length (events s)), events := events s @ [False]\<rparr>
      | AtSigQuit \<Rightarrow> install SIGQUIT (s\<lparr>pc := AtSigTerm\<rparr>)
      | AtSigTerm \<Rightarrow> install SIGTERM (s\<lparr>pc := AtSigInt\<rparr>)
      | AtSigInt \<Rightarrow> install SIGINT (s\<lparr>pc := AtWait\<rparr>)
      | AtWait \<Rightarrow> emit WaitBegin (s\<lparr>pc := InWait\<rparr>)
      | InWait \<Rightarrow> (if is_set s then s\<lparr>pc := AtStop\<rparr> else s)
      | AtStop \<Rightarrow> emit StopCalled (s\<lparr>pc := InStop\<rparr>)
      | InStop \<Rightarrow> s\<lparr>pc := Done\<rparr>
      | Done \<Rightarrow> s
      | Aborted \<Rightarrow> s)"

text \<open>The registration greenlet ends (by returning or by raising inside the greenlet).\<close>

definition task_ends :: "run_state \<Rightarrow> run_state" where
  "task_ends s =
     (if registry_event s = Running \<and> pc s \<noteq> Done \<and> pc s \<noteq> Aborted
      then emit TaskEnd (s\<lparr>registry_event := Finished\<rparr>) else s)"

text \<open>
  A signal arrives at the live process. With a handler it sets the handler's event; the
  store records a change only when the flag was unset. Without one the signal's default
  ends the run of \<^verbatim>\<open>run\<close> where it is.
\<close>

definition deliver :: "signal \<Rightarrow> run_state \<Rightarrow> run_state" where
  "deliver sg s =
     (if pc s = Done \<or> pc s = Aborted then s
      else (case map_of (handlers s) sg of
              None \<Rightarrow> s\<lparr>pc := Aborted\<rparr>
            | Some i \<Rightarrow>
                (if i < length (events s) \<and> events s ! i then s
                 else emit EventSet (s\<lparr>events := (events s)[i := True]\<rparr>))))"

text \<open>A call into a collaborator raises: \<^verbatim>\<open>run\<close> has no handler, so the run ends there.\<close>

definition fault :: "run_state \<Rightarrow> run_state" where
  "fault s =
     (if pc s = InRegister \<or> pc s = AtRpc \<or> pc s = AtConsole \<or> pc s = InStop
      then s\<lparr>pc := Aborted\<rparr> else s)"

datatype action = Orch | TaskEnds | Deliver signal | Fault

fun step :: "bool \<Rightarrow> bool \<Rightarrow> action \<Rightarrow> run_state \<Rightarrow> run_state" where
  "step r c Orch s = orch r c s"
| "step r c TaskEnds s = task_ends s"
| "step r c (Deliver sg) s = deliver sg s"
| "step r c Fault s = fault s"

fun exec :: "bool \<Rightarrow> bool \<Rightarrow> action list \<Rightarrow> run_state \<Rightarrow> run_state" where
  "exec r c [] s = s"
| "exec r c (a # as) s = exec r c as (step r c a s)"

definition initial :: run_state where
  "initial = \<lparr>pc = AtSpawn, registry_event = NotSpawned, events = [], event = None,
               handlers = [], log = []\<rparr>"

text \<open>
  Lines 307 to 311: \<^verbatim>\<open>run\<close> splits the listen address, takes the socket and invokes
  \<^verbatim>\<open>app\<close>; nothing in \<^verbatim>\<open>run\<close> catches what \<^verbatim>\<open>app\<close> raises.
\<close>

definition run_begin ::
  "externals \<Rightarrow> accmgr \<Rightarrow> args \<Rightarrow> world \<Rightarrow> run_state outcome \<times> world" where
  "run_begin ex am kw w =
     (case split_endpoint ex (listen_address kw) of
        None \<Rightarrow> (Raised MalformedEndpoint, w)
      | Some (listen_host, listen_port) \<Rightarrow>
          and_then (app ex am kw w) (\<lambda>node w1. (Returned initial, w1)))"

text \<open>In a log, no \<open>y\<close> is recorded before the first \<open>x\<close>.\<close>

fun precedes :: "obs \<Rightarrow> obs \<Rightarrow> obs list \<Rightarrow> bool" where
  "precedes x y [] = True"
| "precedes x y (e # l) = (if e = x then True else if e = y then False else precedes x y l)"

section \<open>Auxiliary definitions for the statements\<close>

text \<open>The values of \<^verbatim>\<open>unlock_tries\<close> printed by \<open>j\<close> failed attempts that start at \<open>n\<close>.\<close>

fun countdown :: "nat \<Rightarrow> nat \<Rightarrow> nat list" where
  "countdown n 0 = []"
| "countdown n (Suc j) = n # countdown (n - 1) j"

text \<open>\<^verbatim>\<open>sep.join(pieces)\<close> for a separator of one character.\<close>

fun join_with :: "char \<Rightarrow> string list \<Rightarrow> string" where
  "join_with sep [] = []"
| "join_with sep [x] = x"
| "join_with sep (x # y # ys) = x @ sep # join_with sep (y # ys)"

text \<open>
  The spec's reading of the CORS step, for comparison with \<open>domain_list\<close>: split on
  \<^verbatim>\<open>,\<close>, each piece trimmed of surrounding whitespace, the empty input giving the
  empty list.
\<close>

definition is_space :: "char \<Rightarrow> bool" where
  "is_space c = (c = CHR '' '' \<or> c = CHR 0x09 \<or> c = LF \<or> c = CR \<or> c = CHR 0x0B \<or> c = CHR 0x0C)"

definition trimmed :: "string \<Rightarrow> string" where
  "trimmed s = rev (dropWhile is_space (rev (dropWhile is_space s)))"

definition domain_list_spec :: "string \<Rightarrow> string list" where
  "domain_list_spec cors = (if cors = [] then [] else map trimmed (split_on (CHR '','') cors))"

subsection \<open>Invariants of the scheduled machine\<close>

definition ordered :: "run_state \<Rightarrow> bool" where
  "ordered s =
     (precedes Spawned RegistryBegin (log s) \<and> precedes TaskEnd Joined (log s)
      \<and> precedes Joined WaitBegin (log s)
      \<and> (pc s = AtRegister \<longrightarrow> Spawned \<in> set (log s))
      \<and> (registry_event s = Finished \<longrightarrow> TaskEnd \<in> set (log s))
      \<and> (pc s \<in> {AtEvent, AtSigQuit, AtSigTerm, AtSigInt, AtWait} \<longrightarrow> Joined \<in> set (log s)))"

definition full_handlers :: "(signal \<times> nat) list" where
  "full_handlers = [(SIGINT, 0), (SIGTERM, 0), (SIGQUIT, 0)]"

definition wired :: "run_state \<Rightarrow> bool" where
  "wired s =
     (if pc s = Aborted then True
      else if pc s = AtSigQuit then handlers s = [] \<and> length (events s) = 1 \<and> event s = Some 0
      else if pc s = AtSigTerm
        then handlers s = [(SIGQUIT, 0)] \<and> length (events s) = 1 \<and> event s = Some 0
      else if pc s = AtSigInt
        then handlers s = [(SIGTERM, 0), (SIGQUIT, 0)] \<and> length (events s) = 1 \<and> event s = Some 0
      else if pc s = AtWait \<or> pc s = InWait \<or> pc s = AtStop \<or> pc s = InStop \<or> pc s = Done
        then handlers s = full_handlers \<and> length (events s) = 1 \<and> event s = Some 0
      else handlers s = [] \<and> events s = [] \<and> event s = None)"

definition counted :: "run_state \<Rightarrow> bool" where
  "counted s =
     (count_list (log s) EventSet = (if events s = [True] then 1 else 0)
      \<and> count_list (log s) StopCalled =
          (if pc s = InStop \<or> pc s = Done then 1
           else if pc s = Aborted then min 1 (count_list (log s) StopCalled) else 0)
      \<and> (pc s = AtStop \<or> pc s = InStop \<or> pc s = Done \<longrightarrow> events s = [True])
      \<and> length (events s) \<le> 1)"

definition unjoined :: "run_state \<Rightarrow> bool" where
  "unjoined s =
     (Joined \<in> set (log s) \<or>
      (handlers s = [] \<and> event s = None \<and> StopCalled \<notin> set (log s) \<and> EventSet \<notin> set (log s)
       \<and> (pc s = AtSpawn \<or> pc s = AtRegister \<or> pc s = InRegister \<or> pc s = AtDomains
            \<or> pc s = AtRpc \<or> pc s = AtConsole \<or> pc s = AtJoin \<or> pc s = Aborted)))"

subsection \<open>A sample installation\<close>

text \<open>
  Two accounts whose passphrase is \<^verbatim>\<open>secret\<close>, the default options of \<^verbatim>\<open>OPTIONS\<close>,
  collaborators that accept what they are given, and a user who types four wrong
  passphrases before the right one.
\<close>

definition demo_accmgr :: accmgr where
  "demo_accmgr = \<lparr>accounts = [''aa'', ''bb''],
     address_in_keystore = (\<lambda>a. a = Some ''aa'' \<or> a = Some ''bb''),
     privkey = (\<lambda>a p. if p = ''secret'' then Some ''key'' else None)\<rparr>"

definition demo_externals :: externals where
  "demo_externals = \<lparr>split_endpoint = parse_endpoint,
     address_decoder = Some, DEFAULT_NAT_KEEPALIVE_RETRIES = 5,
     BlockChainService = (\<lambda>k r h p. None)\<rparr>"

definition demo_args :: args where
  "demo_args = \<lparr>address = Some ''aa'', eth_rpc_endpoint = ''127.0.0.1:8545'',
     registry_contract_address = ''r'', discovery_contract_address = ''d'',
     listen_address = ''0.0.0.0:40001'', rpccorsdomain = ''http://localhost:*/*'',
     max_unresponsive_time = 120, send_ping_time = 60, console = False, rpc = True,
     api_address = ''127.0.0.1:5001'', password_file = None\<rparr>"

definition demo_world :: world where
  "demo_world = \<lparr>prompt_answers = [], passphrases = [''a'', ''b'', ''c'', ''d'', ''secret''],
     printed = [], unlock_attempts = []\<rparr>"

text \<open>A schedule that takes \<^verbatim>\<open>run\<close> from the spawn into \<^verbatim>\<open>event.wait()\<close>.\<close>

definition startup_schedule :: "action list" where
  "startup_schedule =
     [Orch, Orch, TaskEnds, Orch, Orch, Orch, Orch, Orch, Orch, Orch, Orch, Orch, Orch]"

text \<open>
  A schedule that stops between lines 360 and 361, with the handler of \<^verbatim>\<open>SIGQUIT\<close>
  installed and those of \<^verbatim>\<open>SIGTERM\<close> and \<^verbatim>\<open>SIGINT\<close> not yet.
\<close>

definition window_schedule :: "action list" where
  "window_schedule = [Orch, Orch, TaskEnds, Orch, Orch, Orch, Orch, Orch, Orch, Orch]"

text \<open>Seven turns of the orchestrator: enough to go from line 361 to the end of \<^verbatim>\<open>run\<close>.\<close>

definition drain :: "action list" where
  "drain = [Orch, Orch, Orch, Orch, Orch, Orch, Orch]"

text \<open>The number of turns the orchestrator still needs to reach the end of \<^verbatim>\<open>run\<close>.\<close>

fun turns_left :: "pc \<Rightarrow> nat" where
  "turns_left AtSpawn = 15"
| "turns_left AtRegister = 14"
| "turns_left InRegister = 13"
| "turns_left AtDomains = 12"
| "turns_left AtRpc = 11"
| "turns_left AtConsole = 10"
| "turns_left AtJoin = 9"
| "turns_left AtEvent = 8"
| "turns_left AtSigQuit = 7"
| "turns_left AtSigTerm = 6"
| "turns_left AtSigInt = 5"
| "turns_left AtWait = 4"
| "turns_left InWait = 3"
| "turns_left AtStop = 2"
| "turns_left InStop = 1"
| "turns_left Done = 0"
| "turns_left Aborted = 16"

section \<open>Properties of credential resolution\<close>

declare unlock_loop.simps [simp del]
declare select_index.simps [simp del]

lemma unlock_loop_good:
  "passphrases w = p # rest \<Longrightarrow> privkey am a p = Some k \<Longrightarrow>
   unlock_loop am a n w =
     (Returned k, w\<lparr>passphrases := rest, unlock_attempts := unlock_attempts w @ [p]\<rparr>)"
  by (subst unlock_loop.simps) (simp add: get_privkey_def attempt_def)

lemma unlock_loop_bad_last:
  "passphrases w = p # rest \<Longrightarrow> privkey am a p = None \<Longrightarrow>
   unlock_loop am a 0 w =
     (SysExit 1, say (ExhaustedUnlockAttempts a)
        (w\<lparr>passphrases := rest, unlock_attempts := unlock_attempts w @ [p]\<rparr>))"
  by (subst unlock_loop.simps) (simp add: get_privkey_def attempt_def)

lemma unlock_loop_bad_more:
  "passphrases w = p # rest \<Longrightarrow> privkey am a p = None \<Longrightarrow>
   unlock_loop am a (Suc n) w =
     unlock_loop am a n (say (IncorrectPassphrase (Suc n))
        (w\<lparr>passphrases := rest, unlock_attempts := unlock_attempts w @ [p]\<rparr>))"
  by (subst unlock_loop.simps) (simp add: get_privkey_def attempt_def)

lemma unlock_loop_retry_good:
  "passphrases w = bad @ good # rest \<Longrightarrow> \<forall>p \<in> set bad. privkey am a p = None \<Longrightarrow>
   privkey am a good = Some k \<Longrightarrow> length bad \<le> n \<Longrightarrow>
   unlock_loop am a n w =
     (Returned k, w\<lparr>passphrases := rest,
        printed := printed w @ map IncorrectPassphrase (countdown n (length bad)),
        unlock_attempts := unlock_attempts w @ bad @ [good]\<rparr>)"
proof (induction bad arbitrary: n w)
  case Nil
  then show ?case by (simp add: unlock_loop_good)
next
  case (Cons p bad)
  then obtain m where n: "n = Suc m" by (cases n) auto
  let ?w = "say (IncorrectPassphrase (Suc m))
        (w\<lparr>passphrases := bad @ good # rest, unlock_attempts := unlock_attempts w @ [p]\<rparr>)"
  have step: "unlock_loop am a (Suc m) w = unlock_loop am a m ?w"
    using Cons.prems by (intro unlock_loop_bad_more) auto
  have "passphrases ?w = bad @ good # rest" by (simp add: say_def)
  from Cons.IH [OF this, of m] Cons.prems n
  show ?case unfolding n step by (simp add: say_def)
qed

lemma unlock_loop_exhaust:
  "passphrases w = bad @ rest \<Longrightarrow> \<forall>p \<in> set bad. privkey am a p = None \<Longrightarrow>
   length bad = Suc n \<Longrightarrow>
   unlock_loop am a n w =
     (SysExit 1, w\<lparr>passphrases := rest,
        printed := printed w @ map IncorrectPassphrase (countdown n n)
                     @ [ExhaustedUnlockAttempts a],
        unlock_attempts := unlock_attempts w @ bad\<rparr>)"
proof (induction n arbitrary: bad w)
  case 0
  then obtain p where "bad = [p]" by (cases bad) auto
  with 0 show ?case by (simp add: unlock_loop_bad_last say_def)
next
  case (Suc n)
  then obtain p bad' where b: "bad = p # bad'" by (cases bad) auto
  let ?w = "say (IncorrectPassphrase (Suc n))
        (w\<lparr>passphrases := bad' @ rest, unlock_attempts := unlock_attempts w @ [p]\<rparr>)"
  have step: "unlock_loop am a (Suc n) w = unlock_loop am a n ?w"
    using Suc.prems b by (intro unlock_loop_bad_more) auto
  have "passphrases ?w = bad' @ rest" by (simp add: say_def)
  from Suc.IH [OF this] Suc.prems b
  show ?case unfolding step by (simp add: say_def)
qed

lemma countdown_3: "countdown 3 3 = [3, 2, 1]"
  by (simp add: numeral_3_eq_3)

lemma unlock_without_file: "unlock am a None w = unlock_loop am a 3 w"
  by (simp add: unlock_def read_password_def truthy_def)

lemma splitlines_Nil: "(splitlines cs = []) = (cs = [])"
  by (cases cs) (auto split: list.splits)

lemma first_line:
  "splitlines cs = p # others \<Longrightarrow> p = takeWhile (\<lambda>c. c \<noteq> LF \<and> c \<noteq> CR) cs"
  by (induction cs arbitrary: p others) (auto simp: splitlines_Nil split: if_splits list.splits)

text \<open>
  Claim C2. Without a password file the passphrase is asked for at most four times. Four
  incorrect passphrases in a row end the process with \<^verbatim>\<open>sys.exit(1)\<close> after the fourth
  attempt: the three retry messages and the final message are printed, the four
  passphrases are the only ones handed to the keystore, and the rest of the input is left
  unread. A correct passphrase after at most three incorrect ones returns the private key.
\<close>

theorem interactive_unlock_bounded:
  "\<forall>p \<in> set bad. privkey am a p = None \<Longrightarrow>
   (length bad = 4 \<longrightarrow>
      unlock am a None (w\<lparr>passphrases := bad @ rest\<rparr>) =
        (SysExit 1,
         w\<lparr>passphrases := rest,
           printed := printed w @ [IncorrectPassphrase 3, IncorrectPassphrase 2,
                                   IncorrectPassphrase 1, ExhaustedUnlockAttempts a],
           unlock_attempts := unlock_attempts w @ bad\<rparr>))
   \<and> (length bad < 4 \<and> privkey am a good = Some k \<longrightarrow>
      unlock am a None (w\<lparr>passphrases := bad @ good # rest\<rparr>) =
        (Returned k,
         w\<lparr>passphrases := rest,
           printed := printed w @ map IncorrectPassphrase (countdown 3 (length bad)),
           unlock_attempts := unlock_attempts w @ bad @ [good]\<rparr>))"
proof (intro conjI impI)
  assume bad: "\<forall>p \<in> set bad. privkey am a p = None" and len: "length bad = 4"
  have "passphrases (w\<lparr>passphrases := bad @ rest\<rparr>) = bad @ rest" by simp
  from unlock_loop_exhaust [OF this bad, of 3] len
  show "unlock am a None (w\<lparr>passphrases := bad @ rest\<rparr>) =
        (SysExit 1,
         w\<lparr>passphrases := rest,
           printed := printed w @ [IncorrectPassphrase 3, IncorrectPassphrase 2,
                                   IncorrectPassphrase 1, ExhaustedUnlockAttempts a],
           unlock_attempts := unlock_attempts w @ bad\<rparr>)"
    by (simp add: unlock_without_file countdown_3)
next
  assume bad: "\<forall>p \<in> set bad. privkey am a p = None"
    and good: "length bad < 4 \<and> privkey am a good = Some k"
  have "passphrases (w\<lparr>passphrases := bad @ good # rest\<rparr>) = bad @ good # rest" by simp
  from unlock_loop_retry_good [OF this bad, of k 3] good
  show "unlock am a None (w\<lparr>passphrases := bad @ good # rest\<rparr>) =
        (Returned k,
         w\<lparr>passphrases := rest,
           printed := printed w @ map IncorrectPassphrase (countdown 3 (length bad)),
           unlock_attempts := unlock_attempts w @ bad @ [good]\<rparr>)"
    by (simp add: unlock_without_file)
qed

theorem interactive_unlock_bounded_witness:
  "list_all (\<lambda>p. privkey demo_accmgr (Some ''aa'') p = None) [''a'', ''b'', ''c'', ''d'']
   \<and> length [''a'', ''b'', ''c'', ''d''] = 4
   \<and> unlock demo_accmgr (Some ''aa'') None demo_world =
        (SysExit 1,
         \<lparr>prompt_answers = [], passphrases = [''secret''],
          printed = [IncorrectPassphrase 3, IncorrectPassphrase 2, IncorrectPassphrase 1,
                     ExhaustedUnlockAttempts (Some ''aa'')],
          unlock_attempts = [''a'', ''b'', ''c'', ''d'']\<rparr>)
   \<and> length [''a'', ''b''] < (4::nat) \<and> privkey demo_accmgr (Some ''aa'') ''secret'' = Some ''key''
   \<and> unlock demo_accmgr (Some ''aa'') None (demo_world\<lparr>passphrases := [''a'', ''b'', ''secret'', ''x'']\<rparr>) =
        (Returned ''key'',
         \<lparr>prompt_answers = [], passphrases = [''x''],
          printed = [IncorrectPassphrase 3, IncorrectPassphrase 2],
          unlock_attempts = [''a'', ''b'', ''secret'']\<rparr>)"
proof -
  have bad4: "\<forall>p \<in> set [''a'', ''b'', ''c'', ''d'']. privkey demo_accmgr (Some ''aa'') p = None"
    by (simp add: demo_accmgr_def)
  have bad2: "\<forall>p \<in> set [''a'', ''b'']. privkey demo_accmgr (Some ''aa'') p = None"
    by (simp add: demo_accmgr_def)
  have good: "privkey demo_accmgr (Some ''aa'') ''secret'' = Some ''key''"
    by (simp add: demo_accmgr_def)
  from interactive_unlock_bounded [OF bad4, where w = demo_world and rest = "[''secret'']"
      and good = "''secret''" and k = "''key''"]
  have one: "unlock demo_accmgr (Some ''aa'') None demo_world =
        (SysExit 1,
         \<lparr>prompt_answers = [], passphrases = [''secret''],
          printed = [IncorrectPassphrase 3, IncorrectPassphrase 2, IncorrectPassphrase 1,
                     ExhaustedUnlockAttempts (Some ''aa'')],
          unlock_attempts = [''a'', ''b'', ''c'', ''d'']\<rparr>)"
    by (simp add: demo_world_def)
  from interactive_unlock_bounded [OF bad2, where w = demo_world and rest = "[''x'']"
      and good = "''secret''" and k = "''key''"] good
  have two: "unlock demo_accmgr (Some ''aa'') None (demo_world\<lparr>passphrases := [''a'', ''b'', ''secret'', ''x'']\<rparr>) =
        (Returned ''key'',
         \<lparr>prompt_answers = [], passphrases = [''x''],
          printed = [IncorrectPassphrase 3, IncorrectPassphrase 2],
          unlock_attempts = [''a'', ''b'', ''secret'']\<rparr>)"
    by (simp add: demo_world_def numeral_2_eq_2)
  from bad4 good one two show ?thesis by simp
qed

text \<open>
  Claim C3. With a password file whose first line is not empty, the password is that first
  line (the content up to the first line end), exactly one unlock attempt is made with it,
  and the passphrase prompt is never used: a correct password returns the key, an incorrect
  one prints the failure and leaves with \<^verbatim>\<open>sys.exit(1)\<close>.
\<close>

theorem password_file_single_attempt:
  "splitlines content = p # others \<Longrightarrow> p \<noteq> [] \<Longrightarrow>
   p = takeWhile (\<lambda>c. c \<noteq> LF \<and> c \<noteq> CR) content
   \<and> unlock am a (Some content) w =
       (case privkey am a p of
          Some k \<Rightarrow> (Returned k, w\<lparr>unlock_attempts := unlock_attempts w @ [p]\<rparr>)
        | None \<Rightarrow>
            (SysExit 1,
             w\<lparr>printed := printed w @ [IncorrectPasswordInFile a],
               unlock_attempts := unlock_attempts w @ [p]\<rparr>))"
proof -
  assume sl: "splitlines content = p # others" and ne: "p \<noteq> []"
  have "unlock am a (Some content) w =
       (case privkey am a p of
          Some k \<Rightarrow> (Returned k, w\<lparr>unlock_attempts := unlock_attempts w @ [p]\<rparr>)
        | None \<Rightarrow>
            (SysExit 1,
             w\<lparr>printed := printed w @ [IncorrectPasswordInFile a],
               unlock_attempts := unlock_attempts w @ [p]\<rparr>))"
    using sl ne
    by (simp add: unlock_def read_password_def truthy_def get_privkey_def attempt_def
        say_def split: option.splits)
  with first_line [OF sl] show ?thesis by (intro conjI)
qed

theorem password_file_single_attempt_witness:
  "splitlines (''wrong'' @ [LF] @ ''secret'' @ [LF]) = ''wrong'' # [''secret'']
   \<and> ''wrong'' \<noteq> []
   \<and> unlock demo_accmgr (Some ''aa'') (Some (''wrong'' @ [LF] @ ''secret'' @ [LF])) demo_world =
       (SysExit 1, demo_world\<lparr>printed := [IncorrectPasswordInFile (Some ''aa'')],
                     unlock_attempts := [''wrong'']\<rparr>)"
proof -
  have sl: "splitlines (''wrong'' @ [LF] @ ''secret'' @ [LF]) = ''wrong'' # [''secret'']"
    by (simp add: drop_lf_def)
  have ne: "''wrong'' \<noteq> []" by simp
  from password_file_single_attempt [OF sl ne, where am = demo_accmgr and a = "Some ''aa''"
      and w = demo_world]
  show ?thesis using sl by (simp add: demo_accmgr_def demo_world_def)
qed

text \<open>
  Claim C9. A password file whose first line is empty does not take the single-attempt
  path: \<^verbatim>\<open>unlock\<close> behaves as without a password file, that is as the passphrase loop
  with three retries, so four incorrect passphrases end it with \<^verbatim>\<open>sys.exit(1)\<close>.
\<close>

theorem empty_first_line_is_interactive:
  "splitlines content = [] # others \<Longrightarrow>
   unlock am a (Some content) w = unlock_loop am a 3 w
   \<and> unlock am a (Some content) w = unlock am a None w
   \<and> (passphrases w = bad @ rest \<and> length bad = 4 \<and> (\<forall>p \<in> set bad. privkey am a p = None) \<longrightarrow>
        unlock am a (Some content) w =
          (SysExit 1,
           w\<lparr>passphrases := rest,
             printed := printed w @ [IncorrectPassphrase 3, IncorrectPassphrase 2,
                                     IncorrectPassphrase 1, ExhaustedUnlockAttempts a],
             unlock_attempts := unlock_attempts w @ bad\<rparr>))"
proof -
  assume sl: "splitlines content = [] # others"
  have eq: "unlock am a (Some content) w = unlock_loop am a 3 w"
    using sl by (simp add: unlock_def read_password_def truthy_def)
  have "unlock_loop am a 3 w =
          (SysExit 1,
           w\<lparr>passphrases := rest,
             printed := printed w @ [IncorrectPassphrase 3, IncorrectPassphrase 2,
                                     IncorrectPassphrase 1, ExhaustedUnlockAttempts a],
             unlock_attempts := unlock_attempts w @ bad\<rparr>)"
    if "passphrases w = bad @ rest" "length bad = 4" "\<forall>p \<in> set bad. privkey am a p = None"
    using unlock_loop_exhaust [OF that(1) that(3), of 3] that(2) by (simp add: countdown_3)
  with eq show ?thesis by (simp add: unlock_without_file)
qed

theorem empty_first_line_is_interactive_witness:
  "splitlines ([LF] @ ''secret'') = [] # [''secret'']
   \<and> passphrases demo_world = [''a'', ''b'', ''c'', ''d''] @ [''secret'']
   \<and> length [''a'', ''b'', ''c'', ''d''] = 4
   \<and> list_all (\<lambda>p. privkey demo_accmgr (Some ''aa'') p = None) [''a'', ''b'', ''c'', ''d'']
   \<and> unlock demo_accmgr (Some ''aa'') (Some ([LF] @ ''secret'')) demo_world =
        (SysExit 1,
         \<lparr>prompt_answers = [], passphrases = [''secret''],
          printed = [IncorrectPassphrase 3, IncorrectPassphrase 2, IncorrectPassphrase 1,
                     ExhaustedUnlockAttempts (Some ''aa'')],
          unlock_attempts = [''a'', ''b'', ''c'', ''d'']\<rparr>)"
proof -
  have sl: "splitlines ([LF] @ ''secret'') = [] # [''secret'']"
    by (simp add: drop_lf_def)
  have pp: "passphrases demo_world = [''a'', ''b'', ''c'', ''d''] @ [''secret'']"
    by (simp add: demo_world_def)
  have bad4: "\<forall>p \<in> set [''a'', ''b'', ''c'', ''d'']. privkey demo_accmgr (Some ''aa'') p = None"
    by (simp add: demo_accmgr_def)
  have "passphrases demo_world = [''a'', ''b'', ''c'', ''d''] @ [''secret'']
        \<and> length [''a'', ''b'', ''c'', ''d''] = 4
        \<and> (\<forall>p \<in> set [''a'', ''b'', ''c'', ''d'']. privkey demo_accmgr (Some ''aa'') p = None)
      \<longrightarrow> unlock demo_accmgr (Some ''aa'') (Some ([LF] @ ''secret'')) demo_world =
          (SysExit 1,
           demo_world\<lparr>passphrases := [''secret''],
             printed := printed demo_world @ [IncorrectPassphrase 3, IncorrectPassphrase 2,
                                     IncorrectPassphrase 1, ExhaustedUnlockAttempts (Some ''aa'')],
             unlock_attempts := unlock_attempts demo_world @ [''a'', ''b'', ''c'', ''d'']\<rparr>)"
    using empty_first_line_is_interactive [OF sl, where w = demo_world
      and bad = "[''a'', ''b'', ''c'', ''d'']" and rest = "[''secret'']"
      and am = demo_accmgr and a = "Some ''aa''"]
    by (rule conjunct2 [THEN conjunct2])
  with pp bad4
  have "unlock demo_accmgr (Some ''aa'') (Some ([LF] @ ''secret'')) demo_world =
        (SysExit 1,
         \<lparr>prompt_answers = [], passphrases = [''secret''],
          printed = [IncorrectPassphrase 3, IncorrectPassphrase 2, IncorrectPassphrase 1,
                     ExhaustedUnlockAttempts (Some ''aa'')],
          unlock_attempts = [''a'', ''b'', ''c'', ''d'']\<rparr>)"
    by (simp add: demo_world_def)
  with sl pp bad4 show ?thesis by simp
qed

section \<open>Properties of endpoint resolution\<close>

lemma rpc_endpoint_bare:
  "\<not> startswith s ''http://'' \<Longrightarrow> \<not> startswith s ''https://'' \<Longrightarrow> CHR '':'' \<notin> set s \<Longrightarrow>
   rpc_endpoint split s = Returned (s, None)"
  by (simp add: rpc_endpoint_def)

text \<open>
  Claim C4. For an endpoint that begins with \<^verbatim>\<open>http://\<close> or \<^verbatim>\<open>https://\<close> the prefix is
  stripped. When the remainder has no \<^verbatim>\<open>:\<close> the result is the remainder with port 80
  for \<^verbatim>\<open>http://\<close> and 443 for \<^verbatim>\<open>https://\<close>; when it has one, host and port are what
  \<^verbatim>\<open>split_endpoint\<close> gives for the remainder (or its failure), whatever that helper is.
\<close>

theorem rpc_endpoint_prefixed:
  "rpc_endpoint split (''http://'' @ r) =
     (if CHR '':'' \<in> set r
      then (case split r of None \<Rightarrow> Raised MalformedEndpoint
            | Some (h, p) \<Rightarrow> Returned (h, Some p))
      else Returned (r, Some 80))
   \<and> rpc_endpoint split (''https://'' @ r) =
     (if CHR '':'' \<in> set r
      then (case split r of None \<Rightarrow> Raised MalformedEndpoint
            | Some (h, p) \<Rightarrow> Returned (h, Some p))
      else Returned (r, Some 443))"
  by (simp add: rpc_endpoint_def startswith_def strip_prefix_def)

theorem rpc_endpoint_prefixed_witness:
  "rpc_endpoint parse_endpoint ''http://node'' = Returned (''node'', Some 80)
   \<and> rpc_endpoint parse_endpoint ''https://node'' = Returned (''node'', Some 443)
   \<and> rpc_endpoint parse_endpoint ''http://node:8545'' = Returned (''node'', Some 8545)
   \<and> rpc_endpoint parse_endpoint ''https://node:x'' = Raised MalformedEndpoint"
  using rpc_endpoint_prefixed [of parse_endpoint "''node''"]
    rpc_endpoint_prefixed [of parse_endpoint "''node:8545''"]
    rpc_endpoint_prefixed [of parse_endpoint "''node:x''"]
  by (simp add: parse_endpoint_def is_digit_def)

text \<open>
  Claim C5. The endpoint \<^verbatim>\<open>mynode\<close> has no prefix and no \<^verbatim>\<open>:\<close>. Lines 248 to 260 leave
  \<^verbatim>\<open>rpc_port\<close> unbound for it, and \<^verbatim>\<open>app\<close> goes on to unlock the key and only then
  ends with \<^verbatim>\<open>UnboundLocalError\<close> at line 271: it does not fail with
  \<open>MalformedEndpoint\<close>.
\<close>

theorem bare_endpoint_unbound_port:
  "rpc_endpoint parse_endpoint ''mynode'' = Returned (''mynode'', None)
   \<and> app demo_externals demo_accmgr (demo_args\<lparr>eth_rpc_endpoint := ''mynode''\<rparr>)
         (demo_world\<lparr>passphrases := [''secret'']\<rparr>) =
       (Raised UnboundLocalError,
        demo_world\<lparr>passphrases := [], unlock_attempts := [''secret'']\<rparr>)"
  by (simp add: app_def demo_externals_def demo_accmgr_def demo_args_def demo_world_def
      parse_endpoint_def is_digit_def select_address_def and_then_def unlock_def
      read_password_def truthy_def unlock_loop.simps get_privkey_def attempt_def
      rpc_endpoint_def startswith_def)

section \<open>Properties of the empty keystore\<close>

text \<open>
  Claim C6 as stated fails on the sample installation with an empty keystore: \<^verbatim>\<open>run\<close>
  ends with the \<^verbatim>\<open>RuntimeError\<close> of line 188 still raised, not with \<^verbatim>\<open>sys.exit(1)\<close>,
  and nothing has been printed.
\<close>

theorem no_accounts_counterexample:
  "run_begin demo_externals (demo_accmgr\<lparr>accounts := []\<rparr>) demo_args demo_world =
     (Raised RuntimeError, demo_world)
   \<and> fst (run_begin demo_externals (demo_accmgr\<lparr>accounts := []\<rparr>) demo_args demo_world)
       \<noteq> SysExit 1
   \<and> printed (snd (run_begin demo_externals (demo_accmgr\<lparr>accounts := []\<rparr>) demo_args
        demo_world)) = []"
  by (simp add: run_begin_def app_def demo_externals_def demo_accmgr_def demo_args_def
      demo_world_def parse_endpoint_def is_digit_def and_then_def)

text \<open>
  Claim C6, amended. With an empty account directory, once the listen and API addresses
  have been split and the keep-alive constant is not zero, \<^verbatim>\<open>app\<close> raises
  \<^verbatim>\<open>RuntimeError\<close> before any prompt, unlock attempt or print, and \<^verbatim>\<open>run\<close> lets the
  exception through.
\<close>

theorem no_accounts_raises:
  "accounts am = [] \<Longrightarrow>
   split_endpoint ex (listen_address kw) \<noteq> None \<Longrightarrow>
   split_endpoint ex (api_address kw) \<noteq> None \<Longrightarrow>
   DEFAULT_NAT_KEEPALIVE_RETRIES ex \<noteq> 0 \<Longrightarrow>
   app ex am kw w = (Raised RuntimeError, w) \<and> run_begin ex am kw w = (Raised RuntimeError, w)"
  by (auto simp: app_def run_begin_def and_then_def)

theorem no_accounts_raises_witness:
  "accounts (demo_accmgr\<lparr>accounts := []\<rparr>) = []
   \<and> split_endpoint demo_externals (listen_address demo_args) = Some (''0.0.0.0'', 40001)
   \<and> split_endpoint demo_externals (api_address demo_args) = Some (''127.0.0.1'', 5001)
   \<and> DEFAULT_NAT_KEEPALIVE_RETRIES demo_externals = 5
   \<and> app demo_externals (demo_accmgr\<lparr>accounts := []\<rparr>) demo_args demo_world =
        (Raised RuntimeError, demo_world)
   \<and> run_begin demo_externals (demo_accmgr\<lparr>accounts := []\<rparr>) demo_args demo_world =
        (Raised RuntimeError, demo_world)"
proof -
  have a: "accounts (demo_accmgr\<lparr>accounts := []\<rparr>) = []" by simp
  have l: "split_endpoint demo_externals (listen_address demo_args) = Some (''0.0.0.0'', 40001)"
    by (simp add: demo_externals_def demo_args_def parse_endpoint_def is_digit_def)
  have p: "split_endpoint demo_externals (api_address demo_args) = Some (''127.0.0.1'', 5001)"
    by (simp add: demo_externals_def demo_args_def parse_endpoint_def is_digit_def)
  have d: "DEFAULT_NAT_KEEPALIVE_RETRIES demo_externals = 5"
    by (simp add: demo_externals_def)
  have "app demo_externals (demo_accmgr\<lparr>accounts := []\<rparr>) demo_args demo_world =
        (Raised RuntimeError, demo_world)
      \<and> run_begin demo_externals (demo_accmgr\<lparr>accounts := []\<rparr>) demo_args demo_world =
        (Raised RuntimeError, demo_world)"
    using l p d by (intro no_accounts_raises [OF a]) simp_all
  with a l p d show ?thesis by simp
qed

section \<open>Properties of the list of CORS domains\<close>

lemma map_str: "map str xs = xs"
  by (induction xs) (simp_all add: str_def)

lemma split_on_nonempty: "split_on sep s \<noteq> []"
  by (induction s) (auto split: list.splits)

lemma join_split_on: "join_with sep (split_on sep s) = s"
proof (induction s)
  case Nil
  then show ?case by simp
next
  case (Cons c s)
  obtain l ls where e: "split_on sep s = l # ls"
    using split_on_nonempty [of sep s] by (cases "split_on sep s") auto
  with Cons show ?case by (cases ls) auto
qed

lemma split_on_no_sep: "d \<in> set (split_on sep s) \<Longrightarrow> sep \<notin> set d"
  by (induction s arbitrary: d) (auto split: if_splits list.splits)

lemma split_on_single: "sep \<notin> set s \<Longrightarrow> split_on sep s = [s]"
  by (induction s) auto

lemma domain_list_split: "s \<noteq> [] \<Longrightarrow> domain_list s = split_on (CHR '','') s"
  by (simp add: domain_list_def str_def map_str split_on_single)

text \<open>
  Claim C7 as stated fails at the input \<^verbatim>\<open>a, b\<close>: the code keeps the blank in front of
  \<^verbatim>\<open>b\<close>, the spec's reading removes it.
\<close>

theorem domain_list_counterexample:
  "domain_list ''a, b'' = [''a'', '' b'']
   \<and> domain_list_spec ''a, b'' = [''a'', ''b'']
   \<and> domain_list ''a, b'' \<noteq> domain_list_spec ''a, b''"
  by (simp add: domain_list_def domain_list_spec_def str_def trimmed_def is_space_def)

text \<open>
  Claim C7, amended. The CORS input is split on \<^verbatim>\<open>,\<close> into an ordered list whose pieces
  are kept as they are: the empty input gives the empty list, \<^verbatim>\<open>a,b,c\<close> gives the three
  letters in order, and for every other input the pieces contain no \<^verbatim>\<open>,\<close> and joined
  with \<^verbatim>\<open>,\<close> they give back the input.
\<close>

theorem domain_list_verbatim:
  "domain_list [] = []
   \<and> domain_list ''a,b,c'' = [''a'', ''b'', ''c'']
   \<and> (s \<noteq> [] \<longrightarrow>
        domain_list s = split_on (CHR '','') s
        \<and> join_with (CHR '','') (domain_list s) = s
        \<and> (\<forall>d \<in> set (domain_list s). CHR '','' \<notin> set d))"
proof (intro conjI impI ballI)
  show "domain_list [] = []" by (simp add: domain_list_def)
  show "domain_list ''a,b,c'' = [''a'', ''b'', ''c'']" by (simp add: domain_list_def str_def)
next
  assume "s \<noteq> []"
  then show "domain_list s = split_on (CHR '','') s" by (rule domain_list_split)
next
  assume "s \<noteq> []"
  then show "join_with (CHR '','') (domain_list s) = s"
    by (simp add: domain_list_split join_split_on)
next
  fix d assume "s \<noteq> []" "d \<in> set (domain_list s)"
  then show "CHR '','' \<notin> set d" by (simp add: domain_list_split split_on_no_sep)
qed

theorem domain_list_verbatim_witness:
  "''a, b ,c'' \<noteq> []
   \<and> domain_list ''a, b ,c'' = [''a'', '' b '', ''c'']
   \<and> join_with (CHR '','') (domain_list ''a, b ,c'') = ''a, b ,c''
   \<and> list_all (\<lambda>d. CHR '','' \<notin> set d) (domain_list ''a, b ,c'')"
proof -
  have ne: "''a, b ,c'' \<noteq> []" by simp
  have sp: "split_on (CHR '','') ''a, b ,c'' = [''a'', '' b '', ''c'']" by simp
  from domain_list_verbatim [of "''a, b ,c''"] ne
  have "domain_list ''a, b ,c'' = split_on (CHR '','') ''a, b ,c''
        \<and> join_with (CHR '','') (domain_list ''a, b ,c'') = ''a, b ,c''
        \<and> (\<forall>d \<in> set (domain_list ''a, b ,c''). CHR '','' \<notin> set d)"
    by blast
  then show ?thesis using ne sp by (simp add: list_all_iff)
qed

section \<open>Properties of the scheduled machine\<close>

lemma exec_append: "exec r c (as @ bs) s = exec r c bs (exec r c as s)"
  by (induction as arbitrary: s) auto

lemma precedes_snoc:
  "x \<noteq> y \<Longrightarrow> precedes x y (l @ [e]) = (precedes x y l \<and> (e = y \<longrightarrow> x \<in> set l))"
  by (induction l) auto

lemma precedes_mem: "precedes x y l \<Longrightarrow> y \<in> set l \<Longrightarrow> x \<in> set l"
  by (induction l) (auto split: if_splits)

lemma ordered_initial: "ordered initial"
  by (simp add: ordered_def initial_def)

lemma ordered_orch: "ordered s \<Longrightarrow> ordered (orch r c s)"
  by (cases "pc s")
     (auto simp: ordered_def orch_def emit_def install_def precedes_snoc split: option.splits)

lemma ordered_task: "ordered s \<Longrightarrow> ordered (task_ends s)"
  by (auto simp: ordered_def task_ends_def emit_def precedes_snoc)

lemma ordered_deliver: "ordered s \<Longrightarrow> ordered (deliver sg s)"
  by (auto simp: ordered_def deliver_def emit_def precedes_snoc split: option.splits)

lemma ordered_fault: "ordered s \<Longrightarrow> ordered (fault s)"
  by (auto simp: ordered_def fault_def)

lemma ordered_step: "ordered s \<Longrightarrow> ordered (step r c a s)"
  by (cases a) (simp_all add: ordered_orch ordered_task ordered_deliver ordered_fault)

lemma ordered_exec: "ordered s \<Longrightarrow> ordered (exec r c as s)"
  by (induction as arbitrary: s) (auto simp: ordered_step simp del: step.simps)

lemma len1: "length xs = Suc 0 \<Longrightarrow> \<exists>b. xs = [b]"
  by (cases xs) auto

lemma wired_counted_initial: "wired initial \<and> counted initial"
  by (simp add: wired_def counted_def initial_def)

lemma wc_orch: "wired s \<Longrightarrow> counted s \<Longrightarrow> wired (orch r c s) \<and> counted (orch r c s)"
  by (cases "pc s")
     (auto simp: wired_def counted_def orch_def emit_def install_def is_set_def full_handlers_def
           dest!: len1 split: if_splits)

lemma wc_task: "wired s \<Longrightarrow> counted s \<Longrightarrow> wired (task_ends s) \<and> counted (task_ends s)"
  by (auto simp: wired_def counted_def task_ends_def emit_def split: if_splits)

lemma wc_fault: "wired s \<Longrightarrow> counted s \<Longrightarrow> wired (fault s) \<and> counted (fault s)"
  by (auto simp: wired_def counted_def fault_def split: if_splits)

lemma wc_deliver: "wired s \<Longrightarrow> counted s \<Longrightarrow> wired (deliver sg s) \<and> counted (deliver sg s)"
  by (cases "pc s"; cases sg)
     (auto simp: wired_def counted_def deliver_def emit_def full_handlers_def
           dest!: len1 split: if_splits)

lemma wc_step: "wired s \<and> counted s \<Longrightarrow> wired (step r c a s) \<and> counted (step r c a s)"
  by (cases a) (simp_all add: wc_orch wc_task wc_fault wc_deliver)

lemma wc_exec: "wired s \<and> counted s \<Longrightarrow> wired (exec r c as s) \<and> counted (exec r c as s)"
  by (induction as arbitrary: s) (simp_all add: wc_step del: step.simps)

lemma unjoined_initial: "unjoined initial"
  by (simp add: unjoined_def initial_def)

lemma unjoined_orch: "unjoined s \<Longrightarrow> unjoined (orch r c s)"
  by (cases "pc s")
     (auto simp: unjoined_def orch_def emit_def install_def split: option.splits)

lemma unjoined_task: "unjoined s \<Longrightarrow> unjoined (task_ends s)"
  by (auto simp: unjoined_def task_ends_def emit_def)

lemma unjoined_deliver: "unjoined s \<Longrightarrow> unjoined (deliver sg s)"
  by (auto simp: unjoined_def deliver_def emit_def split: option.splits)

lemma unjoined_fault: "unjoined s \<Longrightarrow> unjoined (fault s)"
  by (auto simp: unjoined_def fault_def)

lemma unjoined_step: "unjoined s \<Longrightarrow> unjoined (step r c a s)"
  by (cases a) (simp_all add: unjoined_orch unjoined_task unjoined_deliver unjoined_fault)

lemma unjoined_exec: "unjoined s \<Longrightarrow> unjoined (exec r c as s)"
  by (induction as arbitrary: s) (simp_all add: unjoined_step del: step.simps)

lemma aborted_step: "pc s = Aborted \<Longrightarrow> step r c a s = s"
  by (cases a) (simp_all add: orch_def task_ends_def deliver_def fault_def)

lemma aborted_exec: "pc s = Aborted \<Longrightarrow> exec r c as s = s"
  by (induction as arbitrary: s) (simp_all add: aborted_step del: step.simps)

lemma deliver_idle:
  "handlers t = full_handlers \<Longrightarrow> events t = [True] \<Longrightarrow> deliver sg t = t"
  by (cases sg) (simp_all add: deliver_def full_handlers_def)

lemma delivers_idle:
  "handlers t = full_handlers \<Longrightarrow> events t = [True] \<Longrightarrow> exec r c (map Deliver sgs) t = t"
  by (induction sgs) (simp_all add: deliver_idle)

lemma deliver_first:
  "pc s = InWait \<Longrightarrow> handlers s = full_handlers \<Longrightarrow> events s = [False] \<Longrightarrow>
   deliver sg s = s\<lparr>events := [True], log := log s @ [EventSet]\<rparr>"
  by (cases sg) (simp_all add: deliver_def full_handlers_def emit_def)

lemma shutdown_run:
  assumes "pc s = InWait" "handlers s = full_handlers" "events s = [False]" "event s = Some 0"
  shows "exec r c (Deliver sg # map Deliver sgs @ [Orch, Orch] @ map Deliver sgs' @ [Orch]) s =
         s\<lparr>pc := Done, events := [True], log := log s @ [EventSet, StopCalled]\<rparr>"
proof -
  let ?s1 = "s\<lparr>events := [True], log := log s @ [EventSet]\<rparr>"
  let ?s3 = "s\<lparr>pc := InStop, events := [True], log := log s @ [EventSet, StopCalled]\<rparr>"
  have a: "deliver sg s = ?s1" using assms by (simp add: deliver_first)
  have b: "exec r c (map Deliver sgs) ?s1 = ?s1" using assms by (simp add: delivers_idle)
  have c: "exec r c [Orch, Orch] ?s1 = ?s3"
    using assms by (simp add: orch_def is_set_def emit_def)
  have d: "exec r c (map Deliver sgs') ?s3 = ?s3" using assms by (simp add: delivers_idle)
  have e: "exec r c [Orch] ?s3 = s\<lparr>pc := Done, events := [True], log := log s @ [EventSet, StopCalled]\<rparr>"
    by (simp add: orch_def)
  show ?thesis
    using a b c d e by (simp add: exec_append)
qed

lemma startup_state:
  "exec True False startup_schedule initial =
     \<lparr>pc = InWait, registry_event = Finished, events = [False], event = Some 0,
      handlers = full_handlers,
      log = [Spawned, RegistryBegin, TaskEnd, RegistryEnd, ApiSpawned, Joined, WaitBegin]\<rparr>"
  by (simp add: startup_schedule_def initial_def orch_def task_ends_def emit_def install_def
      full_handlers_def)

text \<open>
  Claim C1. In every run of the machine, under every schedule: the registration greenlet
  is spawned before the registry call begins, \<^verbatim>\<open>join\<close> returns only after the greenlet
  has ended, and the join has returned before \<^verbatim>\<open>event.wait()\<close> is entered. The greenlet
  and the registry call may end in either order: one schedule ends the greenlet first,
  another the registry call.
\<close>

theorem registration_task_order:
  "precedes Spawned RegistryBegin (log (exec r c as initial))
   \<and> precedes TaskEnd Joined (log (exec r c as initial))
   \<and> precedes Joined WaitBegin (log (exec r c as initial))
   \<and> (RegistryBegin \<in> set (log (exec r c as initial))
        \<longrightarrow> Spawned \<in> set (log (exec r c as initial)))
   \<and> (WaitBegin \<in> set (log (exec r c as initial))
        \<longrightarrow> Joined \<in> set (log (exec r c as initial))
            \<and> TaskEnd \<in> set (log (exec r c as initial)))
   \<and> log (exec r c [Orch, Orch, TaskEnds, Orch] initial) =
        [Spawned, RegistryBegin, TaskEnd, RegistryEnd]
   \<and> log (exec r c [Orch, Orch, Orch, TaskEnds] initial) =
        [Spawned, RegistryBegin, RegistryEnd, TaskEnd]"
proof -
  have o: "ordered (exec r c as initial)"
    by (rule ordered_exec [OF ordered_initial])
  then have p1: "precedes Spawned RegistryBegin (log (exec r c as initial))"
    and p2: "precedes TaskEnd Joined (log (exec r c as initial))"
    and p3: "precedes Joined WaitBegin (log (exec r c as initial))"
    by (simp_all add: ordered_def)
  have m1: "Spawned \<in> set (log (exec r c as initial))"
    if "RegistryBegin \<in> set (log (exec r c as initial))"
    using precedes_mem [OF p1 that] .
  have m2: "Joined \<in> set (log (exec r c as initial))"
    if "WaitBegin \<in> set (log (exec r c as initial))"
    using precedes_mem [OF p3 that] .
  have m3: "TaskEnd \<in> set (log (exec r c as initial))"
    if "WaitBegin \<in> set (log (exec r c as initial))"
    using precedes_mem [OF p2 m2 [OF that]] .
  have e1: "log (exec r c [Orch, Orch, TaskEnds, Orch] initial) =
        [Spawned, RegistryBegin, TaskEnd, RegistryEnd]"
    by (simp add: initial_def orch_def task_ends_def emit_def)
  have e2: "log (exec r c [Orch, Orch, Orch, TaskEnds] initial) =
        [Spawned, RegistryBegin, RegistryEnd, TaskEnd]"
    by (simp add: initial_def orch_def task_ends_def emit_def)
  from p1 p2 p3 m1 m2 m3 e1 e2 show ?thesis by blast
qed

theorem registration_task_order_witness:
  "RegistryBegin \<in> set (log (exec True False startup_schedule initial))
   \<and> WaitBegin \<in> set (log (exec True False startup_schedule initial))
   \<and> Spawned \<in> set (log (exec True False startup_schedule initial))
   \<and> Joined \<in> set (log (exec True False startup_schedule initial))
   \<and> TaskEnd \<in> set (log (exec True False startup_schedule initial))
   \<and> precedes Spawned RegistryBegin (log (exec True False startup_schedule initial))
   \<and> precedes TaskEnd Joined (log (exec True False startup_schedule initial))
   \<and> precedes Joined WaitBegin (log (exec True False startup_schedule initial))"
proof -
  have b: "RegistryBegin \<in> set (log (exec True False startup_schedule initial))"
    and w: "WaitBegin \<in> set (log (exec True False startup_schedule initial))"
    by (simp_all add: startup_state)
  from registration_task_order [of True False startup_schedule] b w
  show ?thesis by blast
qed

lemma handled_shape:
  "wired s \<Longrightarrow> pc s \<noteq> Done \<Longrightarrow> pc s \<noteq> Aborted \<Longrightarrow> map_of (handlers s) sg = Some i \<Longrightarrow>
   i = 0 \<and> length (events s) = 1 \<and> event s = Some 0
   \<and> (pc s = AtSigTerm \<or> pc s = AtSigInt \<or> pc s = AtWait \<or> pc s = InWait
        \<or> pc s = AtStop \<or> pc s = InStop)"
  by (cases sg) (auto simp: wired_def full_handlers_def split: if_splits)

lemma unhandled_shape:
  assumes "wired s" "counted s" "pc s \<noteq> Done" "pc s \<noteq> Aborted" "map_of (handlers s) sg = None"
  shows "StopCalled \<notin> set (log s)"
proof -
  from assms(1,3,4,5) have "pc s \<noteq> InStop"
    by (cases sg) (auto simp: wired_def full_handlers_def split: if_splits)
  with assms(2,3,4) have "count_list (log s) StopCalled = 0"
    by (simp add: counted_def)
  then show ?thesis by (simp add: count_list_0_iff)
qed

lemma handled_deliver:
  "length (events s) = 1 \<Longrightarrow> event s = Some 0 \<Longrightarrow> pc s \<noteq> Done \<Longrightarrow> pc s \<noteq> Aborted \<Longrightarrow>
   map_of (handlers s) sg = Some 0 \<Longrightarrow>
   deliver sg s = (if is_set s then s else s\<lparr>events := [True], log := log s @ [EventSet]\<rparr>)"
  by (auto simp: deliver_def is_set_def emit_def dest!: len1)

lemma orch_turn:
  "event t = Some 0 \<Longrightarrow> events t = [True] \<Longrightarrow> turns_left (pc t) \<le> 6 \<Longrightarrow>
   event (orch r c t) = Some 0 \<and> events (orch r c t) = [True]
   \<and> turns_left (pc (orch r c t)) = turns_left (pc t) - 1"
  by (cases "pc t") (simp_all add: orch_def install_def is_set_def emit_def)

lemma orch_turns:
  "event t = Some 0 \<Longrightarrow> events t = [True] \<Longrightarrow> turns_left (pc t) \<le> 6 \<Longrightarrow>
   turns_left (pc (exec r c (replicate n Orch) t)) = turns_left (pc t) - n"
proof (induction n arbitrary: t)
  case 0
  then show ?case by simp
next
  case (Suc n)
  from orch_turn [OF Suc.prems, of r c]
  have "event (orch r c t) = Some 0" "events (orch r c t) = [True]"
    "turns_left (pc (orch r c t)) = turns_left (pc t) - 1" by simp_all
  with Suc.IH [of "orch r c t"] Suc.prems(3) show ?case by simp
qed

lemma turns_left_0: "turns_left p = 0 \<Longrightarrow> p = Done"
  by (cases p) simp_all

lemma drain_replicate: "drain = replicate 7 Orch"
  by (simp add: drain_def eval_nat_numeral)

lemma run_to_done:
  assumes "event t = Some 0" "events t = [True]" "turns_left (pc t) \<le> 6"
  shows "pc (exec r c drain t) = Done"
proof -
  have "turns_left (pc (exec r c drain t)) = turns_left (pc t) - 7"
    unfolding drain_replicate by (rule orch_turns [OF assms])
  with assms(3) have "turns_left (pc (exec r c drain t)) = 0" by simp
  then show ?thesis by (rule turns_left_0)
qed

lemma window_state:
  "exec True False window_schedule initial =
     \<lparr>pc = AtSigTerm, registry_event = Finished, events = [False], event = Some 0,
      handlers = [(SIGQUIT, 0)],
      log = [Spawned, RegistryBegin, TaskEnd, RegistryEnd, ApiSpawned, Joined]\<rparr>"
  by (simp add: window_schedule_def initial_def orch_def task_ends_def emit_def install_def)

text \<open>
  Claim C8 as stated fails for a signal that arrives before its handler is installed.
  \<^verbatim>\<open>SIGINT\<close> during the registry call ends the run with the event never set and
  \<^verbatim>\<open>app_.stop\<close> never called. Between lines 360 and 361 \<^verbatim>\<open>SIGQUIT\<close> has its handler
  and \<^verbatim>\<open>SIGINT\<close> has none, and \<^verbatim>\<open>SIGINT\<close> there ends the run without the stop.
\<close>

theorem early_signal_counterexample:
  "pc (exec True False ([Orch, Orch] @ Deliver SIGINT # startup_schedule) initial) = Aborted
   \<and> count_list (log (exec True False ([Orch, Orch] @ Deliver SIGINT # startup_schedule)
         initial)) EventSet = 0
   \<and> count_list (log (exec True False ([Orch, Orch] @ Deliver SIGINT # startup_schedule)
         initial)) StopCalled = 0
   \<and> map_of (handlers (exec True False window_schedule initial)) SIGQUIT = Some 0
   \<and> map_of (handlers (exec True False window_schedule initial)) SIGINT = None
   \<and> pc (exec True False (window_schedule @ Deliver SIGINT # drain) initial) = Aborted
   \<and> count_list (log (exec True False (window_schedule @ Deliver SIGINT # drain) initial))
         StopCalled = 0"
proof -
  have a: "exec True False [Orch, Orch] initial =
      \<lparr>pc = InRegister, registry_event = Running, events = [], event = None, handlers = [],
       log = [Spawned, RegistryBegin]\<rparr>"
    by (simp add: initial_def orch_def emit_def)
  have b: "exec True False ([Orch, Orch] @ Deliver SIGINT # startup_schedule) initial =
      \<lparr>pc = Aborted, registry_event = Running, events = [], event = None, handlers = [],
       log = [Spawned, RegistryBegin]\<rparr>"
    unfolding exec_append a by (simp add: deliver_def aborted_exec)
  have c: "exec True False (window_schedule @ Deliver SIGINT # drain) initial =
      \<lparr>pc = Aborted, registry_event = Finished, events = [False], event = Some 0,
       handlers = [(SIGQUIT, 0)],
       log = [Spawned, RegistryBegin, TaskEnd, RegistryEnd, ApiSpawned, Joined]\<rparr>"
    unfolding exec_append window_state by (simp add: deliver_def aborted_exec)
  show ?thesis unfolding b c window_state by simp
qed

text \<open>
  Claim C8, amended. Once lines 360 to 362 have run, the handlers of \<^verbatim>\<open>SIGINT\<close>,
  \<^verbatim>\<open>SIGTERM\<close> and \<^verbatim>\<open>SIGQUIT\<close> all set the one event that \<^verbatim>\<open>run\<close> waits on. Under
  every schedule the event goes from unset to set at most once and \<^verbatim>\<open>app_.stop\<close> is
  called at most once, and a run that finished did both exactly once. A signal that
  arrives at the live run while it has a handler leaves the event set, logging the change
  only when the event was unset; seven further turns of the orchestrator then finish the
  run with the event set exactly once and the stop called exactly once. From the wait
  with the event unset, a signal followed by any further signals before, during and after
  the stop sets the event once, calls the stop once and ends the run. A signal that
  arrives at the live run while it has no handler ends the run there: the log stays as it
  was and the stop is never called.
\<close>

theorem shutdown_once_installed:
  "(pc (exec r c as initial) = AtWait \<or> pc (exec r c as initial) = InWait
      \<or> pc (exec r c as initial) = AtStop \<or> pc (exec r c as initial) = InStop
      \<or> pc (exec r c as initial) = Done
     \<longrightarrow> event (exec r c as initial) = Some 0
         \<and> length (events (exec r c as initial)) = 1
         \<and> map_of (handlers (exec r c as initial)) SIGINT = event (exec r c as initial)
         \<and> map_of (handlers (exec r c as initial)) SIGTERM = event (exec r c as initial)
         \<and> map_of (handlers (exec r c as initial)) SIGQUIT = event (exec r c as initial))
   \<and> count_list (log (exec r c as initial)) EventSet \<le> 1
   \<and> count_list (log (exec r c as initial)) StopCalled \<le> 1
   \<and> (pc (exec r c as initial) = Done
        \<longrightarrow> count_list (log (exec r c as initial)) EventSet = 1
            \<and> count_list (log (exec r c as initial)) StopCalled = 1)
   \<and> (pc (exec r c as initial) = InWait \<and> \<not> is_set (exec r c as initial)
        \<longrightarrow> exec r c (as @ Deliver sg # map Deliver sgs @ [Orch, Orch] @ map Deliver sgs' @ [Orch])
              initial =
            (exec r c as initial)
              \<lparr>pc := Done, events := [True],
               log := log (exec r c as initial) @ [EventSet, StopCalled]\<rparr>)
   \<and> (pc (exec r c as initial) \<noteq> Done \<and> pc (exec r c as initial) \<noteq> Aborted
        \<and> map_of (handlers (exec r c as initial)) sg \<noteq> None
        \<longrightarrow> is_set (exec r c (as @ [Deliver sg]) initial)
            \<and> pc (exec r c (as @ [Deliver sg]) initial) = pc (exec r c as initial)
            \<and> log (exec r c (as @ [Deliver sg]) initial) =
                log (exec r c as initial)
                  @ (if is_set (exec r c as initial) then [] else [EventSet])
            \<and> pc (exec r c (as @ Deliver sg # drain) initial) = Done
            \<and> count_list (log (exec r c (as @ Deliver sg # drain) initial)) EventSet = 1
            \<and> count_list (log (exec r c (as @ Deliver sg # drain) initial)) StopCalled = 1)
   \<and> (pc (exec r c as initial) \<noteq> Done \<and> pc (exec r c as initial) \<noteq> Aborted
        \<and> map_of (handlers (exec r c as initial)) sg = None
        \<longrightarrow> pc (exec r c (as @ Deliver sg # bs) initial) = Aborted
            \<and> log (exec r c (as @ Deliver sg # bs) initial) = log (exec r c as initial)
            \<and> StopCalled \<notin> set (log (exec r c (as @ Deliver sg # bs) initial)))"
proof -
  let ?s = "exec r c as initial"
  have wc: "wired ?s \<and> counted ?s"
    by (rule wc_exec [OF wired_counted_initial])
  have a: "event ?s = Some 0 \<and> length (events ?s) = 1
         \<and> map_of (handlers ?s) SIGINT = event ?s
         \<and> map_of (handlers ?s) SIGTERM = event ?s
         \<and> map_of (handlers ?s) SIGQUIT = event ?s"
    if "pc ?s = AtWait \<or> pc ?s = InWait \<or> pc ?s = AtStop \<or> pc ?s = InStop \<or> pc ?s = Done"
    using wc that by (auto simp: wired_def full_handlers_def split: if_splits)
  have b1: "count_list (log ?s) EventSet \<le> 1"
    using wc by (simp add: counted_def split: if_splits)
  have b2: "count_list (log ?s) StopCalled \<le> 1"
    using wc by (auto simp: counted_def split: if_splits)
  have c: "count_list (log ?s) EventSet = 1 \<and> count_list (log ?s) StopCalled = 1"
    if "pc ?s = Done"
    using wc that by (simp add: counted_def)
  have d: "exec r c (as @ Deliver sg # map Deliver sgs @ [Orch, Orch] @ map Deliver sgs' @ [Orch])
              initial =
            ?s\<lparr>pc := Done, events := [True], log := log ?s @ [EventSet, StopCalled]\<rparr>"
    if "pc ?s = InWait \<and> \<not> is_set ?s"
  proof -
    from wc that have h: "handlers ?s = full_handlers" and ev: "event ?s = Some 0"
      and l: "length (events ?s) = 1"
      by (simp_all add: wired_def)
    from l obtain b where eb: "events ?s = [b]" by (auto dest: len1)
    with that ev have "events ?s = [False]" by (simp add: is_set_def)
    from shutdown_run [OF conjunct1 [OF that] h this ev, of r c sg sgs sgs']
    show ?thesis by (simp only: exec_append)
  qed
  have e: "is_set (exec r c (as @ [Deliver sg]) initial)
            \<and> pc (exec r c (as @ [Deliver sg]) initial) = pc ?s
            \<and> log (exec r c (as @ [Deliver sg]) initial) =
                log ?s @ (if is_set ?s then [] else [EventSet])
            \<and> pc (exec r c (as @ Deliver sg # drain) initial) = Done
            \<and> count_list (log (exec r c (as @ Deliver sg # drain) initial)) EventSet = 1
            \<and> count_list (log (exec r c (as @ Deliver sg # drain) initial)) StopCalled = 1"
    if live: "pc ?s \<noteq> Done \<and> pc ?s \<noteq> Aborted \<and> map_of (handlers ?s) sg \<noteq> None"
  proof -
    from live obtain i where i: "map_of (handlers ?s) sg = Some i" by auto
    from handled_shape [OF conjunct1 [OF wc] _ _ i] live
    have i0: "i = 0" and l: "length (events ?s) = 1" and ev: "event ?s = Some 0"
      and late: "pc ?s = AtSigTerm \<or> pc ?s = AtSigInt \<or> pc ?s = AtWait \<or> pc ?s = InWait
        \<or> pc ?s = AtStop \<or> pc ?s = InStop"
      by simp_all
    let ?t = "deliver sg ?s"
    have dl: "?t = (if is_set ?s then ?s else ?s\<lparr>events := [True], log := log ?s @ [EventSet]\<rparr>)"
      using handled_deliver [OF l ev _ _ i [unfolded i0]] live by simp
    from l obtain b where eb: "events ?s = [b]" by (auto dest: len1)
    have t1: "exec r c (as @ [Deliver sg]) initial = ?t" by (simp add: exec_append)
    have t_ev: "event ?t = Some 0" using dl ev by (simp split: if_splits)
    have t_evs: "events ?t = [True]" using dl ev eb by (simp add: is_set_def split: if_splits)
    have t_pc: "pc ?t = pc ?s" using dl by (simp split: if_splits)
    have t_log: "log ?t = log ?s @ (if is_set ?s then [] else [EventSet])"
      using dl by (simp split: if_splits)
    have t_set: "is_set ?t" using t_ev t_evs by (simp add: is_set_def)
    have "turns_left (pc ?t) \<le> 6" using late t_pc by auto
    from run_to_done [OF t_ev t_evs this, of r c]
    have fin: "pc (exec r c (as @ Deliver sg # drain) initial) = Done"
      by (simp add: exec_append)
    have "counted (exec r c (as @ Deliver sg # drain) initial)"
      using wc_exec [OF wired_counted_initial, of r c "as @ Deliver sg # drain"] by simp
    with fin have "count_list (log (exec r c (as @ Deliver sg # drain) initial)) EventSet = 1
        \<and> count_list (log (exec r c (as @ Deliver sg # drain) initial)) StopCalled = 1"
      by (simp add: counted_def)
    with t_set t_pc t_log fin show ?thesis unfolding t1 by simp
  qed
  have f: "pc (exec r c (as @ Deliver sg # bs) initial) = Aborted
            \<and> log (exec r c (as @ Deliver sg # bs) initial) = log ?s
            \<and> StopCalled \<notin> set (log (exec r c (as @ Deliver sg # bs) initial))"
    if dead: "pc ?s \<noteq> Done \<and> pc ?s \<noteq> Aborted \<and> map_of (handlers ?s) sg = None"
  proof -
    from dead have d1: "pc (deliver sg ?s) = Aborted" and d2: "log (deliver sg ?s) = log ?s"
      by (simp_all add: deliver_def)
    have "exec r c (as @ Deliver sg # bs) initial = deliver sg ?s"
      using d1 by (simp add: exec_append aborted_exec)
    moreover have "StopCalled \<notin> set (log ?s)"
      using unhandled_shape [of ?s sg] wc dead by simp
    ultimately show ?thesis using d1 d2 by simp
  qed
  from a b1 b2 c d e f show ?thesis by blast
qed

theorem shutdown_once_installed_witness:
  "pc (exec True False startup_schedule initial) = InWait
   \<and> \<not> is_set (exec True False startup_schedule initial)
   \<and> map_of (handlers (exec True False startup_schedule initial)) SIGINT = Some 0
   \<and> map_of (handlers (exec True False startup_schedule initial)) SIGTERM = Some 0
   \<and> map_of (handlers (exec True False startup_schedule initial)) SIGQUIT = Some 0
   \<and> event (exec True False startup_schedule initial) = Some 0
   \<and> pc (exec True False
        (startup_schedule @ Deliver SIGINT # map Deliver [SIGINT, SIGTERM] @ [Orch, Orch]
           @ map Deliver [SIGQUIT, SIGINT] @ [Orch]) initial) = Done
   \<and> log (exec True False
        (startup_schedule @ Deliver SIGINT # map Deliver [SIGINT, SIGTERM] @ [Orch, Orch]
           @ map Deliver [SIGQUIT, SIGINT] @ [Orch]) initial) =
       [Spawned, RegistryBegin, TaskEnd, RegistryEnd, ApiSpawned, Joined, WaitBegin,
        EventSet, StopCalled]
   \<and> pc (exec True False window_schedule initial) = AtSigTerm
   \<and> map_of (handlers (exec True False window_schedule initial)) SIGQUIT = Some 0
   \<and> map_of (handlers (exec True False window_schedule initial)) SIGINT = None
   \<and> is_set (exec True False (window_schedule @ [Deliver SIGQUIT]) initial)
   \<and> pc (exec True False (window_schedule @ Deliver SIGQUIT # drain) initial) = Done
   \<and> count_list (log (exec True False (window_schedule @ Deliver SIGQUIT # drain) initial))
         EventSet = 1
   \<and> count_list (log (exec True False (window_schedule @ Deliver SIGQUIT # drain) initial))
         StopCalled = 1
   \<and> pc (exec True False (window_schedule @ Deliver SIGINT # drain) initial) = Aborted
   \<and> StopCalled \<notin> set (log (exec True False (window_schedule @ Deliver SIGINT # drain)
         initial))"
proof -
  have p: "pc (exec True False startup_schedule initial) = InWait"
    and n: "\<not> is_set (exec True False startup_schedule initial)"
    by (simp_all add: startup_state is_set_def)
  have wp: "pc (exec True False window_schedule initial) = AtSigTerm"
    and wq: "map_of (handlers (exec True False window_schedule initial)) SIGQUIT = Some 0"
    and wi: "map_of (handlers (exec True False window_schedule initial)) SIGINT = None"
    by (simp_all add: window_state)
  note t1 = shutdown_once_installed [where r = True and c = False and as = startup_schedule
      and sg = SIGINT and sgs = "[SIGINT, SIGTERM]" and sgs' = "[SIGQUIT, SIGINT]" and bs = "[]"]
  note t2 = shutdown_once_installed [where r = True and c = False and as = window_schedule
      and sg = SIGQUIT and sgs = "[]" and sgs' = "[]" and bs = "[]"]
  note t3 = shutdown_once_installed [where r = True and c = False and as = window_schedule
      and sg = SIGINT and sgs = "[]" and sgs' = "[]" and bs = drain]
  from t1 p have h: "event (exec True False startup_schedule initial) = Some 0
      \<and> map_of (handlers (exec True False startup_schedule initial)) SIGINT = Some 0
      \<and> map_of (handlers (exec True False startup_schedule initial)) SIGTERM = Some 0
      \<and> map_of (handlers (exec True False startup_schedule initial)) SIGQUIT = Some 0"
    by simp
  from t1 p n have "exec True False
        (startup_schedule @ Deliver SIGINT # map Deliver [SIGINT, SIGTERM] @ [Orch, Orch]
           @ map Deliver [SIGQUIT, SIGINT] @ [Orch]) initial =
       (exec True False startup_schedule initial)
         \<lparr>pc := Done, events := [True],
          log := log (exec True False startup_schedule initial) @ [EventSet, StopCalled]\<rparr>"
    by blast
  then have run1: "pc (exec True False
        (startup_schedule @ Deliver SIGINT # map Deliver [SIGINT, SIGTERM] @ [Orch, Orch]
           @ map Deliver [SIGQUIT, SIGINT] @ [Orch]) initial) = Done
   \<and> log (exec True False
        (startup_schedule @ Deliver SIGINT # map Deliver [SIGINT, SIGTERM] @ [Orch, Orch]
           @ map Deliver [SIGQUIT, SIGINT] @ [Orch]) initial) =
       [Spawned, RegistryBegin, TaskEnd, RegistryEnd, ApiSpawned, Joined, WaitBegin,
        EventSet, StopCalled]"
    by (simp add: startup_state)
  have live: "pc (exec True False window_schedule initial) \<noteq> Done
      \<and> pc (exec True False window_schedule initial) \<noteq> Aborted"
    using wp by simp
  from t2 live wq
  have run2: "is_set (exec True False (window_schedule @ [Deliver SIGQUIT]) initial)
   \<and> pc (exec True False (window_schedule @ Deliver SIGQUIT # drain) initial) = Done
   \<and> count_list (log (exec True False (window_schedule @ Deliver SIGQUIT # drain) initial))
         EventSet = 1
   \<and> count_list (log (exec True False (window_schedule @ Deliver SIGQUIT # drain) initial))
         StopCalled = 1"
    by simp
  from t3 live wi
  have run3: "pc (exec True False (window_schedule @ Deliver SIGINT # drain) initial) = Aborted
   \<and> StopCalled \<notin> set (log (exec True False (window_schedule @ Deliver SIGINT # drain)
         initial))"
    by blast
  from p n h run1 wp wq wi run2 run3 show ?thesis by blast
qed

text \<open>
  Claim C10. In every reachable state that has a signal handler or an event object the
  join has returned. A signal that arrives before the join has returned meets no handler:
  the run ends there, no event is ever set and \<^verbatim>\<open>app_.stop\<close> is never called, whatever
  is scheduled afterwards.
\<close>

theorem handlers_after_join:
  "(handlers (exec r c as initial) \<noteq> [] \<or> event (exec r c as initial) \<noteq> None
      \<longrightarrow> Joined \<in> set (log (exec r c as initial)))
   \<and> (Joined \<notin> set (log (exec r c as initial))
        \<longrightarrow> pc (exec r c (as @ Deliver sg # bs) initial) = Aborted
            \<and> event (exec r c (as @ Deliver sg # bs) initial) = None
            \<and> EventSet \<notin> set (log (exec r c (as @ Deliver sg # bs) initial))
            \<and> StopCalled \<notin> set (log (exec r c (as @ Deliver sg # bs) initial)))"
proof -
  let ?s = "exec r c as initial"
  have u: "unjoined ?s" by (rule unjoined_exec [OF unjoined_initial])
  have a: "Joined \<in> set (log ?s)" if "handlers ?s \<noteq> [] \<or> event ?s \<noteq> None"
    using u that by (auto simp: unjoined_def)
  have b: "pc (exec r c (as @ Deliver sg # bs) initial) = Aborted
            \<and> event (exec r c (as @ Deliver sg # bs) initial) = None
            \<and> EventSet \<notin> set (log (exec r c (as @ Deliver sg # bs) initial))
            \<and> StopCalled \<notin> set (log (exec r c (as @ Deliver sg # bs) initial))"
    if "Joined \<notin> set (log ?s)"
  proof -
    from u that have h: "handlers ?s = []" "event ?s = None" "StopCalled \<notin> set (log ?s)"
      "EventSet \<notin> set (log ?s)" "pc ?s \<noteq> Done"
      by (auto simp: unjoined_def)
    then have d: "pc (deliver sg ?s) = Aborted" "event (deliver sg ?s) = None"
      "log (deliver sg ?s) = log ?s"
      by (simp_all add: deliver_def)
    have "exec r c (as @ Deliver sg # bs) initial = deliver sg ?s"
      using d(1) by (simp add: exec_append aborted_exec)
    with d h show ?thesis by simp
  qed
  from a b show ?thesis by blast
qed

theorem handlers_after_join_witness:
  "Joined \<notin> set (log (exec True False [Orch, Orch, TaskEnds] initial))
   \<and> pc (exec True False ([Orch, Orch, TaskEnds] @ Deliver SIGTERM # startup_schedule) initial)
       = Aborted
   \<and> event (exec True False ([Orch, Orch, TaskEnds] @ Deliver SIGTERM # startup_schedule)
        initial) = None
   \<and> EventSet \<notin> set (log (exec True False
        ([Orch, Orch, TaskEnds] @ Deliver SIGTERM # startup_schedule) initial))
   \<and> StopCalled \<notin> set (log (exec True False
        ([Orch, Orch, TaskEnds] @ Deliver SIGTERM # startup_schedule) initial))
   \<and> handlers (exec True False startup_schedule initial) \<noteq> []
   \<and> Joined \<in> set (log (exec True False startup_schedule initial))"
proof -
  have j: "Joined \<notin> set (log (exec True False [Orch, Orch, TaskEnds] initial))"
    by (simp add: initial_def orch_def task_ends_def emit_def)
  have h: "handlers (exec True False startup_schedule initial) \<noteq> []"
    by (simp add: startup_state full_handlers_def)
  from handlers_after_join [of True False "[Orch, Orch, TaskEnds]" SIGTERM startup_schedule] j
    handlers_after_join [of True False startup_schedule SIGTERM "[]"] h
  show ?thesis by blast
qed

end
